theory Spec2Isabelle
  imports Main "HOL-Library.Sublist"
begin

section \<open>Strings\<close>

text \<open>
  A Python \<open>str\<close> is a sequence of code points. The model covers the strings whose code
  points lie in 0..255: one \<open>char\<close> is one code point, so \<open>length\<close> counts what
  \<open>len\<close> counts. On that range \<open>str.isspace\<close> holds for exactly twelve code points and
  \<open>str.lower\<close> moves A-Z and the accented capitals 0xC0-0xDE (the multiplication sign
  0xD7 apart) up by 32, one code point to one code point.
\<close>

definition isspace :: "char \<Rightarrow> bool" where
  "isspace c =
     (let n = (of_char c :: nat)
      in (9 \<le> n \<and> n \<le> 13) \<or> (28 \<le> n \<and> n \<le> 32) \<or> n = 133 \<or> n = 160)"

definition lower_char :: "char \<Rightarrow> char" where
  "lower_char c =
     (let n = (of_char c :: nat)
      in if (65 \<le> n \<and> n \<le> 90) \<or> (192 \<le> n \<and> n \<le> 222 \<and> n \<noteq> 215)
         then char_of (n + 32) else c)"

text \<open>\<open>s.lower()\<close>\<close>

definition lower :: "string \<Rightarrow> string" where
  "lower s = map lower_char s"

text \<open>\<open>s.strip()\<close>: whitespace is dropped from the front, then from the back.\<close>

definition strip :: "string \<Rightarrow> string" where
  "strip s = rev (dropWhile isspace (rev (dropWhile isspace s)))"

text \<open>\<open>s.rstrip()\<close>: the second half of \<open>strip\<close>.\<close>

definition rstrip :: "string \<Rightarrow> string" where
  "rstrip s = rev (dropWhile isspace (rev s))"

text \<open>\<open>s.endswith(suf)\<close>\<close>

definition endswith :: "string \<Rightarrow> string \<Rightarrow> bool" where
  "endswith s suf = (length suf \<le> length s \<and> drop (length s - length suf) s = suf)"

text \<open>
  \<open>s.split(sep)\<close> for a separator of one character: the pieces between the occurrences
  of \<open>sep\<close>, empty pieces included, so a string with k separators has k + 1 pieces.
\<close>

function split_on :: "char \<Rightarrow> string \<Rightarrow> string list" where
  "split_on sep s =
     (case dropWhile (\<lambda>c. c \<noteq> sep) s of
        [] \<Rightarrow> [s]
      | _ # rest \<Rightarrow> takeWhile (\<lambda>c. c \<noteq> sep) s # split_on sep rest)"
  by pat_completeness auto
termination
proof (relation "measure (\<lambda>(sep, s). length s)")
  show "wf (measure (\<lambda>(sep, s). length s))"
    by simp
next
  fix sep :: char and s :: string and x rest
  assume "dropWhile (\<lambda>c. c \<noteq> sep) s = x # rest"
  then have "Suc (length rest) \<le> length s"
    using length_dropWhile_le [of "\<lambda>c. c \<noteq> sep" s] by simp
  then show "((sep, rest), (sep, s)) \<in> measure (\<lambda>(sep, s). length s)"
    by simp
qed

declare split_on.simps [simp del]

section \<open>Status\<close>

datatype Status = DRAFT | READY | SENT | FAILED | INVALID

text \<open>The value of a member of the \<open>StrEnum\<close>.\<close>

fun Status_value :: "Status \<Rightarrow> string" where
  "Status_value DRAFT = ''draft''"
| "Status_value READY = ''ready''"
| "Status_value SENT = ''sent''"
| "Status_value FAILED = ''failed''"
| "Status_value INVALID = ''invalid''"

section \<open>Exceptions\<close>

text \<open>
  \<open>ValueError msg\<close> is the exception \<open>_validate\<close> raises, with its message.
  \<open>UnpackValueError\<close> is the \<open>ValueError\<close> the interpreter raises when a sequence is
  unpacked into two names and does not have two elements, \<open>NoneAttributeError\<close> the
  \<open>AttributeError\<close> of reading an attribute of \<open>None\<close>, \<open>IndexError\<close> that of
  indexing a list out of range.
\<close>

datatype exn = ValueError string | UnpackValueError | NoneAttributeError | IndexError

section \<open>EmailAddress\<close>

datatype EmailAddress = EmailAddress (address: string)

definition normalize_str :: "string \<Rightarrow> string" where
  "normalize_str a = lower (strip a)"

definition tlds :: "string list" where
  "tlds = [''.com'', ''.ru'', ''.net'']"

definition validate :: "string \<Rightarrow> exn + unit" where
  "validate a =
     (if CHR ''@'' \<notin> set a then Inl (ValueError (''Invalid email: '' @ a))
      else if \<not> list_ex (\<lambda>tld. endswith a tld) tlds
        then Inl (ValueError (''Invalid email domain: '' @ a))
      else Inr ())"

text \<open>
  \<open>__init__\<close>: the attribute is set to the normalized string, then validated; when the
  validation raises, the caller gets the exception and no object.
\<close>

definition EmailAddress_init :: "string \<Rightarrow> exn + EmailAddress" where
  "EmailAddress_init raw =
     (let a = normalize_str raw
      in case validate a of Inl e \<Rightarrow> Inl e | Inr _ \<Rightarrow> Inr (EmailAddress a))"

text \<open>
  \<open>masked\<close>: \<open>name, domain = self._address.split("@")\<close> raises unless the split has
  exactly two pieces.
\<close>

definition masked :: "EmailAddress \<Rightarrow> exn + string" where
  "masked a =
     (case split_on (CHR ''@'') (address a) of
        [name, domain] \<Rightarrow> Inr (take 2 name @ ''***@'' @ domain)
      | _ \<Rightarrow> Inl UnpackValueError)"

text \<open>
  The well-formedness the specification asks of a normalized address: exactly one
  separator, with something before it and something after it, and an allowed suffix.
\<close>

definition spec_well_formed :: "string \<Rightarrow> bool" where
  "spec_well_formed a =
     (count_list a (CHR ''@'') = 1
      \<and> takeWhile (\<lambda>c. c \<noteq> CHR ''@'') a \<noteq> []
      \<and> drop 1 (dropWhile (\<lambda>c. c \<noteq> CHR ''@'') a) \<noteq> []
      \<and> (\<exists>tld \<in> set tlds. suffix tld a))"

section \<open>Whitespace splitting and joining\<close>

text \<open>
  \<open>s.split()\<close> without a separator: the maximal runs of characters that are not
  whitespace, in order; leading and trailing whitespace gives no empty piece.
\<close>

function split_ws :: "string \<Rightarrow> string list" where
  "split_ws s =
     (case dropWhile isspace s of
        [] \<Rightarrow> []
      | c # cs \<Rightarrow> takeWhile (\<lambda>x. \<not> isspace x) (c # cs)
                 # split_ws (dropWhile (\<lambda>x. \<not> isspace x) (c # cs)))"
  by pat_completeness auto
termination
proof (relation "measure length")
  show "wf (measure length)"
    by simp
next
  fix s :: string and c cs
  assume d: "dropWhile isspace s = c # cs"
  then have "\<not> isspace c"
    using hd_dropWhile [of isspace s] by simp
  then have "dropWhile (\<lambda>x. \<not> isspace x) (c # cs) = dropWhile (\<lambda>x. \<not> isspace x) cs"
    by simp
  then have "length (dropWhile (\<lambda>x. \<not> isspace x) (c # cs)) \<le> length cs"
    by (simp only: length_dropWhile_le)
  moreover have "Suc (length cs) \<le> length s"
    using d length_dropWhile_le [of isspace s] by simp
  ultimately show "(dropWhile (\<lambda>x. \<not> isspace x) (c # cs), s) \<in> measure length"
    by simp
qed

declare split_ws.simps [simp del]

text \<open>\<open>sep.join(xs)\<close>\<close>

fun join_str :: "string \<Rightarrow> string list \<Rightarrow> string" where
  "join_str sep [] = []"
| "join_str sep [x] = x"
| "join_str sep (x # y # ys) = x @ sep @ join_str sep (y # ys)"

text \<open>
  The collapsing the specification describes, on a string already trimmed: every maximal
  run of whitespace becomes one space, everything else stays.
\<close>

function spec_collapse :: "string \<Rightarrow> string" where
  "spec_collapse [] = []"
| "spec_collapse (c # cs) =
     (if isspace c then CHR '' '' # spec_collapse (dropWhile isspace cs)
      else c # spec_collapse cs)"
  by pat_completeness auto
termination
proof (relation "measure length")
  show "wf (measure length)"
    by simp
next
  fix c :: char and cs :: string
  show "(dropWhile isspace cs, c # cs) \<in> measure length"
    using length_dropWhile_le [of isspace cs] by simp
next
  fix c :: char and cs :: string
  show "(cs, c # cs) \<in> measure length"
    by simp
qed

section \<open>Email\<close>

text \<open>
  The dataclass, with the timestamp type \<open>'t\<close> left open. \<open>sender\<close> is an option
  because \<open>_validate_fields\<close> tests it for absence; an \<open>EmailAddress\<close> object has
  neither \<open>__bool__\<close> nor \<open>__len__\<close>, so it is false only when it is \<open>None\<close>.
\<close>

record 't Email =
  subject :: string
  body :: string
  sender :: "EmailAddress option"
  recipients :: "EmailAddress list"
  date :: "'t option"
  short_body :: "string option"
  status :: Status

text \<open>The argument \<open>recipients\<close> of the constructor is one address or a list.\<close>

datatype recipients_arg = One EmailAddress | Many "EmailAddress list"

text \<open>The generated \<open>__init__\<close> with the defaults, then \<open>__post_init__\<close>.\<close>

definition Email_init ::
  "string \<Rightarrow> string \<Rightarrow> EmailAddress option \<Rightarrow> recipients_arg \<Rightarrow> 't Email" where
  "Email_init subj bdy sndr rcps =
     \<lparr>subject = subj, body = bdy, sender = sndr,
      recipients = (case rcps of One r \<Rightarrow> [r] | Many rs \<Rightarrow> rs),
      date = None, short_body = None, status = DRAFT\<rparr>"

definition add_short_body :: "nat \<Rightarrow> 't Email \<Rightarrow> 't Email" where
  "add_short_body limit e =
     (let clean = join_str '' '' (split_ws (body e))
      in e\<lparr>short_body := Some (take limit clean @ (if length clean > limit then ''...'' else ''''))\<rparr>)"

definition validate_fields :: "'t Email \<Rightarrow> 't Email" where
  "validate_fields e =
     (if subject e = [] \<or> body e = [] then e\<lparr>status := INVALID\<rparr>
      else if sender e = None \<or> recipients e = [] then e\<lparr>status := INVALID\<rparr>
      else e\<lparr>status := READY\<rparr>)"

definition prepare :: "'t Email \<Rightarrow> 't Email" where
  "prepare e =
     (let e1 = e\<lparr>subject := strip (subject e)\<rparr>;
          e2 = e1\<lparr>body := strip (body e1)\<rparr>;
          e3 = add_short_body 20 e2
      in validate_fields e3)"

section \<open>The services\<close>

text \<open>
  \<open>Email\<close> objects are mutable and passed by reference, so they live in a store:
  \<open>heap\<close> maps a reference to the object's fields and \<open>next_ref\<close> is the first
  reference not yet allocated. Addresses and recipient lists are kept as values inside
  the fields: no code of the repository mutates an \<open>EmailAddress\<close> or a recipient
  list in place. \<open>clock\<close> is the sequence of readings \<open>datetime.now()\<close> will give,
  \<open>ticks\<close> counts the readings taken, and \<open>send_log\<close> is the content of the file
  \<open>send.log\<close>. Failures of the file system are not modelled.
\<close>

record 't world =
  heap :: "nat \<Rightarrow> 't Email"
  next_ref :: nat
  clock :: "nat \<Rightarrow> 't"
  ticks :: nat
  send_log :: string

text \<open>\<open>deepcopy(email)\<close>: a new object with the same fields.\<close>

definition deepcopy :: "'t world \<Rightarrow> nat \<Rightarrow> nat \<times> 't world" where
  "deepcopy w r =
     (next_ref w, w\<lparr>heap := (heap w)(next_ref w := heap w r), next_ref := Suc (next_ref w)\<rparr>)"

text \<open>\<open>datetime.now()\<close>\<close>

definition now :: "'t world \<Rightarrow> 't \<times> 't world" where
  "now w = (clock w (ticks w), w\<lparr>ticks := Suc (ticks w)\<rparr>)"

text \<open>An assignment to fields of the object at a reference.\<close>

definition assign :: "nat \<Rightarrow> ('t Email \<Rightarrow> 't Email) \<Rightarrow> 't world \<Rightarrow> 't world" where
  "assign r f w = w\<lparr>heap := (heap w)(r := f (heap w r))\<rparr>"

text \<open>
  The body of the loop of \<open>EmailService.send_email\<close>, once for each recipient;
  \<open>email\<close> is the reference the caller passed and \<open>result\<close> the list built so far.
\<close>

fun send_loop :: "nat \<Rightarrow> EmailAddress list \<Rightarrow> nat list \<Rightarrow> 't world \<Rightarrow> nat list \<times> 't world" where
  "send_loop email [] result w = (result, w)"
| "send_loop email (recipient # rest) result w =
     (let (new_email, w1) = deepcopy w email;
          w2 = assign new_email (\<lambda>e. e\<lparr>recipients := [recipient]\<rparr>) w1;
          (t, w3) = now w2;
          w4 = assign new_email (\<lambda>e. e\<lparr>date := Some t\<rparr>) w3;
          w5 = (if status (heap w4 email) = READY
                then assign new_email (\<lambda>e. e\<lparr>status := SENT\<rparr>) w4
                else assign new_email (\<lambda>e. e\<lparr>status := FAILED\<rparr>) w4)
      in send_loop email rest (result @ [new_email]) w5)"

definition EmailService_send_email :: "nat \<Rightarrow> 't world \<Rightarrow> nat list \<times> 't world" where
  "EmailService_send_email email w = send_loop email (recipients (heap w email)) [] w"

text \<open>The line written for one result; the last character is the line feed.\<close>

definition log_line :: "string \<Rightarrow> string \<Rightarrow> string \<Rightarrow> Status \<Rightarrow> string" where
  "log_line ts from_masked to_masked st =
     ts @ '': FROM '' @ from_masked @ '' TO '' @ to_masked @ '' STATUS='' @ Status_value st
        @ [CHR 0x0A]"

text \<open>
  The loop of \<open>LoggingEmailService.send_email\<close> over the results. The line is formatted
  before it is written, in the order of the f-string: the clock is read, then the masked
  sender of the message passed in, then the masked first recipient of the result, then
  the value of its status. \<open>str_dt\<close> is \<open>str\<close> on a timestamp.
\<close>

fun log_loop :: "('t \<Rightarrow> string) \<Rightarrow> nat \<Rightarrow> nat list \<Rightarrow> 't world \<Rightarrow> (exn + unit) \<times> 't world" where
  "log_loop str_dt email [] w = (Inr (), w)"
| "log_loop str_dt email (msg # rest) w =
     (let (t, w1) = now w
      in case sender (heap w1 email) of
           None \<Rightarrow> (Inl NoneAttributeError, w1)
         | Some s \<Rightarrow>
             (case masked s of
                Inl e \<Rightarrow> (Inl e, w1)
              | Inr from_masked \<Rightarrow>
                  (case recipients (heap w1 msg) of
                     [] \<Rightarrow> (Inl IndexError, w1)
                   | r # _ \<Rightarrow>
                       (case masked r of
                          Inl e \<Rightarrow> (Inl e, w1)
                        | Inr to_masked \<Rightarrow>
                            log_loop str_dt email rest
                              (w1\<lparr>send_log := send_log w1
                                   @ log_line (str_dt t) from_masked to_masked
                                       (status (heap w1 msg))\<rparr>)))))"

text \<open>
  \<open>LoggingEmailService.send_email\<close>: the results of the base class, then the log. An
  exception raised while a line is formatted leaves the lines already written in the file.
\<close>

definition LoggingEmailService_send_email ::
  "('t \<Rightarrow> string) \<Rightarrow> nat \<Rightarrow> 't world \<Rightarrow> (exn + nat list) \<times> 't world" where
  "LoggingEmailService_send_email str_dt email w =
     (let (results, w1) = EmailService_send_email email w
      in case log_loop str_dt email results w1 of
           (Inl e, w2) \<Rightarrow> (Inl e, w2)
         | (Inr _, w2) \<Rightarrow> (Inr results, w2))"

section \<open>Example data\<close>

text \<open>
  A world whose only object is the message \<open>e\<close>, at reference 0, with an empty log;
  and the messages of the test suite, prepared.
\<close>

definition world_with :: "'t Email \<Rightarrow> (nat \<Rightarrow> 't) \<Rightarrow> 't world" where
  "world_with e c = \<lparr>heap = (\<lambda>_. e), next_ref = 1, clock = c, ticks = 0, send_log = []\<rparr>"

definition two_recipients :: "nat Email" where
  "two_recipients =
     prepare (Email_init ''Subj'' ''Body'' (Some (EmailAddress ''me@me.com''))
       (Many [EmailAddress ''a@a.com'', EmailAddress ''b@b.com'']))"

definition empty_subject :: "nat Email" where
  "empty_subject =
     prepare (Email_init [] ''Body'' (Some (EmailAddress ''me@me.com''))
       (One (EmailAddress ''you@you.com'')))"

definition hello :: "string Email" where
  "hello =
     prepare (Email_init ''Hello'' ''Body'' (Some (EmailAddress ''me@me.com''))
       (One (EmailAddress ''you@you.com'')))"

definition two_separators :: "string Email" where
  "two_separators =
     prepare (Email_init ''Hello'' ''Body'' (Some (EmailAddress ''a@b@c.com''))
       (One (EmailAddress ''you@you.com'')))"

section \<open>Facts about strings\<close>

lemma endswith_suffix: "endswith s suf = suffix suf s"
proof
  assume "endswith s suf"
  then have "s = take (length s - length suf) s @ suf"
    by (metis append_take_drop_id endswith_def)
  then show "suffix suf s"
    by (rule suffixI)
next
  assume "suffix suf s"
  then obtain zs where "s = zs @ suf"
    by (auto simp: suffix_def)
  then show "endswith s suf"
    by (simp add: endswith_def)
qed

lemma lower_char_idem: "lower_char (lower_char c) = lower_char c"
  by (simp add: lower_char_def Let_def)

lemma isspace_lower_char: "isspace (lower_char c) = isspace c"
  by (auto simp add: lower_char_def isspace_def Let_def)

lemma strip_idem: "strip (strip s) = strip s"
proof -
  let ?t = "dropWhile isspace (rev (dropWhile isspace s))"
  have tail_fixed: "dropWhile isspace ?t = ?t"
    by (simp add: dropWhile_idem)
  have head_fixed: "dropWhile isspace (rev ?t) = rev ?t"
  proof (cases "dropWhile isspace s")
    case Nil
    then show ?thesis by (simp only: rev.simps dropWhile.simps)
  next
    case (Cons c cs)
    then have c: "\<not> isspace c"
      by (metis hd_dropWhile list.sel(1) list.distinct(1))
    have "rev (dropWhile isspace s) = rev cs @ [c]"
      using Cons by simp
    then have "?t = dropWhile isspace (rev cs) @ [c]"
      using c by (simp add: dropWhile_append)
    then have "rev ?t = c # rev (dropWhile isspace (rev cs))"
      by simp
    then show ?thesis
      using c by simp
  qed
  show ?thesis
    unfolding strip_def using head_fixed tail_fixed by simp
qed

lemma split_on_no_sep: "sep \<notin> set s \<Longrightarrow> split_on sep s = [s]"
proof -
  assume "sep \<notin> set s"
  then have "dropWhile (\<lambda>c. c \<noteq> sep) s = []"
    by auto
  then show ?thesis
    by (subst split_on.simps) (simp only: list.case)
qed

lemma split_on_first:
  "sep \<notin> set l \<Longrightarrow> split_on sep (l @ sep # d) = l # split_on sep d"
proof -
  assume a: "sep \<notin> set l"
  then have "dropWhile (\<lambda>c. c \<noteq> sep) (l @ sep # d) = sep # d"
    by (auto simp add: dropWhile_append3)
  moreover have "takeWhile (\<lambda>c. c \<noteq> sep) (l @ sep # d) = l"
    using a by (auto simp add: takeWhile_tail)
  ultimately show ?thesis
    by (subst split_on.simps) (simp only: list.case)
qed

lemma length_split_on: "length (split_on sep s) = Suc (count_list s sep)"
proof (induction sep s rule: split_on.induct)
  case (1 sep s)
  show ?case
  proof (cases "dropWhile (\<lambda>c. c \<noteq> sep) s")
    case Nil
    then have "sep \<notin> set s" by auto
    then show ?thesis
      by (simp add: split_on_no_sep count_list_0_iff)
  next
    case (Cons x rest)
    then have x: "x = sep"
      using hd_dropWhile [of "\<lambda>c. c \<noteq> sep" s] by simp
    have s: "s = takeWhile (\<lambda>c. c \<noteq> sep) s @ sep # rest"
      using Cons x by (metis takeWhile_dropWhile_id)
    have n: "sep \<notin> set (takeWhile (\<lambda>c. c \<noteq> sep) s)"
      by (auto dest: set_takeWhileD)
    have "split_on sep s = takeWhile (\<lambda>c. c \<noteq> sep) s # split_on sep rest"
      using split_on_first [OF n, of rest] s by metis
    moreover have "count_list s sep
        = count_list (takeWhile (\<lambda>c. c \<noteq> sep) s) sep + Suc (count_list rest sep)"
      by (subst s) simp
    then have "count_list s sep = Suc (count_list rest sep)"
      using n by (simp add: count_list_0_iff)
    ultimately show ?thesis
      using "1.IH" [OF Cons] by simp
  qed
qed

lemma split_on_one_sep:
  "sep \<notin> set l \<Longrightarrow> sep \<notin> set d \<Longrightarrow> split_on sep (l @ sep # d) = [l, d]"
  by (simp add: split_on_first split_on_no_sep)

lemma count_one_decomp:
  assumes "count_list s sep = 1"
  shows "s = takeWhile (\<lambda>c. c \<noteq> sep) s @ sep # drop 1 (dropWhile (\<lambda>c. c \<noteq> sep) s)
    \<and> sep \<notin> set (takeWhile (\<lambda>c. c \<noteq> sep) s)
    \<and> sep \<notin> set (drop 1 (dropWhile (\<lambda>c. c \<noteq> sep) s))"
proof -
  let ?l = "takeWhile (\<lambda>c. c \<noteq> sep) s" and ?r = "dropWhile (\<lambda>c. c \<noteq> sep) s"
  have n: "sep \<notin> set ?l"
    by (auto dest: set_takeWhileD)
  have "sep \<in> set s"
    using assms count_list_0_iff [of s sep] by auto
  then have "?r \<noteq> []"
    by auto
  then obtain x rest where r: "?r = x # rest"
    by (cases ?r) auto
  then have x: "x = sep"
    using hd_dropWhile [of "\<lambda>c. c \<noteq> sep" s] by simp
  have s: "s = ?l @ sep # rest"
    using r x by (metis takeWhile_dropWhile_id)
  have "count_list s sep = count_list ?l sep + Suc (count_list rest sep)"
    by (subst s) simp
  then have "count_list rest sep = 0"
    using assms n by (simp add: count_list_0_iff)
  then have "sep \<notin> set rest"
    by (simp add: count_list_0_iff)
  then show ?thesis
    using n s r by (simp only: list.sel drop_Suc drop_0 One_nat_def tl_def list.case simp_thms)
qed

lemma masked_ok_iff: "(\<exists>m. masked a = Inr m) \<longleftrightarrow> count_list (address a) (CHR ''@'') = 1"
proof -
  have "length (split_on (CHR ''@'') (address a)) = Suc (count_list (address a) (CHR ''@''))"
    by (rule length_split_on)
  then show ?thesis
    by (auto simp: masked_def split: list.splits)
qed

lemma masked_one_separator:
  assumes "count_list (address a) (CHR ''@'') = 1"
  shows "masked a = Inr (take 2 (takeWhile (\<lambda>c. c \<noteq> CHR ''@'') (address a)) @ ''***@''
           @ drop 1 (dropWhile (\<lambda>c. c \<noteq> CHR ''@'') (address a)))"
proof -
  let ?l = "takeWhile (\<lambda>c. c \<noteq> CHR ''@'') (address a)"
  let ?d = "drop 1 (dropWhile (\<lambda>c. c \<noteq> CHR ''@'') (address a))"
  from count_one_decomp [OF assms]
  have "split_on (CHR ''@'') (address a) = [?l, ?d]"
    using split_on_one_sep [of "CHR ''@''" ?l ?d] by metis
  then show ?thesis
    by (simp add: masked_def)
qed

lemma strip_decomp:
  "s = takeWhile isspace s @ strip s @ rev (takeWhile isspace (rev (dropWhile isspace s)))"
proof -
  let ?d = "dropWhile isspace s"
  have "rev ?d = takeWhile isspace (rev ?d) @ dropWhile isspace (rev ?d)"
    by simp
  then have "rev (rev ?d) = rev (takeWhile isspace (rev ?d) @ dropWhile isspace (rev ?d))"
    by (rule arg_cong)
  then have "?d = strip s @ rev (takeWhile isspace (rev ?d))"
    by (simp only: rev_rev_ident rev_append strip_def)
  moreover have "s = takeWhile isspace s @ ?d"
    by simp
  ultimately show ?thesis
    by metis
qed

lemma strip_no_outer_space:
  assumes "strip s \<noteq> []"
  shows "\<not> isspace (hd (strip s)) \<and> \<not> isspace (last (strip s))"
proof -
  let ?t = "dropWhile isspace (rev (dropWhile isspace s))"
  have t: "?t \<noteq> []"
    using assms by (simp only: strip_def rev_is_Nil_conv not_False_eq_True)
  then have h: "\<not> isspace (hd ?t)"
    by (rule hd_dropWhile)
  have "last (strip s) = hd ?t"
    using t by (simp only: strip_def last_rev)
  then have l: "\<not> isspace (last (strip s))"
    using h by simp
  have "dropWhile isspace (strip s) \<noteq> []"
  proof
    assume "dropWhile isspace (strip s) = []"
    then have "strip (strip s) = []"
      by (simp only: strip_def [of "strip s"] rev.simps dropWhile.simps)
    then show False
      using assms by (simp only: strip_idem)
  qed
  then have "\<not> isspace (hd (dropWhile isspace (strip s)))"
    by (rule hd_dropWhile)
  moreover have "hd (dropWhile isspace (strip s)) = hd (strip s)"
  proof (cases "strip s")
    case Nil
    then show ?thesis by simp
  next
    case (Cons c cs)
    show ?thesis
    proof (cases "isspace c")
      case False
      then show ?thesis using Cons by simp
    next
      case True
      have "strip (strip s) = rev (dropWhile isspace (rev (dropWhile isspace cs)))"
        using Cons True by (simp add: strip_def [of "c # cs"])
      then have "length (strip (strip s)) \<le> length cs"
        using length_dropWhile_le [of isspace "rev (dropWhile isspace cs)"]
          length_dropWhile_le [of isspace cs] by simp
      then have "length (strip s) \<le> length cs"
        by (simp only: strip_idem)
      moreover have "length (strip s) = Suc (length cs)"
        by (simp only: Cons length_Cons)
      ultimately have False
        by simp
      then show ?thesis ..
    qed
  qed
  ultimately show ?thesis
    using l by simp
qed

lemma allowed_suffix_iff:
  "list_ex (\<lambda>tld. endswith a tld) tlds
     \<longleftrightarrow> suffix ''.com'' a \<or> suffix ''.ru'' a \<or> suffix ''.net'' a"
  by (simp add: tlds_def endswith_suffix)

lemma count_one_member: "count_list s x = 1 \<Longrightarrow> x \<in> set s"
  using count_list_0_iff [of s x] by auto

lemma EmailAddress_init_iff:
  "EmailAddress_init raw = Inr a \<longleftrightarrow>
     a = EmailAddress (normalize_str raw) \<and> CHR ''@'' \<in> set (normalize_str raw)
     \<and> list_ex (\<lambda>tld. endswith (normalize_str raw) tld) tlds"
  by (auto simp: EmailAddress_init_def validate_def Let_def)

lemma domain_part_nonempty:
  assumes "CHR ''@'' \<in> set n"
    and "suffix ''.com'' n \<or> suffix ''.ru'' n \<or> suffix ''.net'' n"
  shows "drop 1 (dropWhile (\<lambda>c. c \<noteq> CHR ''@'') n) \<noteq> []"
proof
  let ?r = "dropWhile (\<lambda>c. c \<noteq> CHR ''@'') n"
  assume e: "drop 1 ?r = []"
  have "?r \<noteq> []"
    using assms(1) by auto
  then obtain x rest where r: "?r = x # rest"
    by (cases ?r) auto
  then have x: "x = CHR ''@''"
    using hd_dropWhile [of "\<lambda>c. c \<noteq> CHR ''@''" n] by simp
  have "rest = []"
    using e r by simp
  then have "takeWhile (\<lambda>c. c \<noteq> CHR ''@'') n @ ''@'' = n"
    using r x takeWhile_dropWhile_id [of "\<lambda>c. c \<noteq> CHR ''@''" n] by simp
  then have "last n = CHR ''@''"
    by (metis last_snoc)
  moreover have "last n \<noteq> CHR ''@''"
    using assms(2) by (auto simp: suffix_def)
  ultimately show False
    by simp
qed

section \<open>Claims about EmailAddress\<close>

text \<open>
  C3, as amended. Construction succeeds only for a raw string whose normalized value
  contains the separator and ends with one of the suffixes .com, .ru, .net; the object
  then holds that normalized value, and something stands after its first separator. A
  normalized value without a separator, or with a separator and without an allowed
  suffix, fails with the validation error of that check, and no object is returned. A
  normalized value with exactly one separator and an allowed suffix is accepted, whether
  or not anything stands before the separator.
\<close>

theorem EmailAddress_init_validation:
  fixes raw :: string
  defines "n \<equiv> normalize_str raw"
  defines "allowed \<equiv> suffix ''.com'' n \<or> suffix ''.ru'' n \<or> suffix ''.net'' n"
  shows "(EmailAddress_init raw = Inr a \<longrightarrow>
            address a = n \<and> CHR ''@'' \<in> set n \<and> allowed
            \<and> drop 1 (dropWhile (\<lambda>c. c \<noteq> CHR ''@'') n) \<noteq> [])
    \<and> (CHR ''@'' \<notin> set n \<longrightarrow>
            EmailAddress_init raw = Inl (ValueError (''Invalid email: '' @ n)))
    \<and> (CHR ''@'' \<in> set n \<and> \<not> allowed \<longrightarrow>
            EmailAddress_init raw = Inl (ValueError (''Invalid email domain: '' @ n)))
    \<and> (count_list n (CHR ''@'') = 1 \<and> allowed \<longrightarrow>
            EmailAddress_init raw = Inr (EmailAddress n))"
proof -
  have al: "list_ex (\<lambda>tld. endswith n tld) tlds = allowed"
    unfolding allowed_def by (rule allowed_suffix_iff)
  have 1: "EmailAddress_init raw = Inr a \<longrightarrow> address a = n \<and> CHR ''@'' \<in> set n \<and> allowed
      \<and> drop 1 (dropWhile (\<lambda>c. c \<noteq> CHR ''@'') n) \<noteq> []"
  proof
    assume "EmailAddress_init raw = Inr a"
    then have v: "address a = n \<and> CHR ''@'' \<in> set n \<and> allowed"
      using al by (auto simp: EmailAddress_init_iff n_def)
    then have "drop 1 (dropWhile (\<lambda>c. c \<noteq> CHR ''@'') n) \<noteq> []"
      using domain_part_nonempty [of n] unfolding allowed_def by blast
    with v show "address a = n \<and> CHR ''@'' \<in> set n \<and> allowed
        \<and> drop 1 (dropWhile (\<lambda>c. c \<noteq> CHR ''@'') n) \<noteq> []"
      by blast
  qed
  have 2: "CHR ''@'' \<notin> set n \<longrightarrow>
      EmailAddress_init raw = Inl (ValueError (''Invalid email: '' @ n))"
    by (simp add: EmailAddress_init_def validate_def n_def)
  have 3: "CHR ''@'' \<in> set n \<and> \<not> allowed \<longrightarrow>
      EmailAddress_init raw = Inl (ValueError (''Invalid email domain: '' @ n))"
    using al by (simp add: EmailAddress_init_def validate_def n_def)
  have 4: "count_list n (CHR ''@'') = 1 \<and> allowed \<longrightarrow>
      EmailAddress_init raw = Inr (EmailAddress n)"
    using al count_one_member [of n "CHR ''@''"] by (auto simp: EmailAddress_init_iff n_def)
  from 1 2 3 4 show ?thesis
    by blast
qed


theorem EmailAddress_init_validation_witness:
  "EmailAddress_init ''  UsEr@Example.COM  '' = Inr (EmailAddress ''user@example.com'')
   \<and> address (EmailAddress ''user@example.com'') = normalize_str ''  UsEr@Example.COM  ''
   \<and> drop 1 (dropWhile (\<lambda>c. c \<noteq> CHR ''@'') (normalize_str ''  UsEr@Example.COM  ''))
        = ''example.com''
   \<and> count_list (normalize_str ''  UsEr@Example.COM  '') (CHR ''@'') = 1
   \<and> suffix ''.com'' (normalize_str ''  UsEr@Example.COM  '')
   \<and> CHR ''@'' \<notin> set (normalize_str ''invalid_email'')
   \<and> EmailAddress_init ''invalid_email'' = Inl (ValueError ''Invalid email: invalid_email'')
   \<and> CHR ''@'' \<in> set (normalize_str ''user@example.xyz'')
   \<and> \<not> (suffix ''.com'' (normalize_str ''user@example.xyz'')
        \<or> suffix ''.ru'' (normalize_str ''user@example.xyz'')
        \<or> suffix ''.net'' (normalize_str ''user@example.xyz''))
   \<and> EmailAddress_init ''user@example.xyz''
        = Inl (ValueError ''Invalid email domain: user@example.xyz'')"
proof -
  have n1: "normalize_str ''  UsEr@Example.COM  '' = ''user@example.com''"
    by code_simp
  have n2: "normalize_str ''invalid_email'' = ''invalid_email''"
    by code_simp
  have n3: "normalize_str ''user@example.xyz'' = ''user@example.xyz''"
    by code_simp
  have s1: "suffix ''.com'' ''user@example.com''"
    by (simp add: endswith_suffix [symmetric] endswith_def)
  have s3: "\<not> (suffix ''.com'' ''user@example.xyz'' \<or> suffix ''.ru'' ''user@example.xyz''
      \<or> suffix ''.net'' ''user@example.xyz'')"
    by (simp add: endswith_suffix [symmetric] endswith_def)
  have c1: "count_list ''user@example.com'' (CHR ''@'') = 1"
    by simp
  show ?thesis
    using EmailAddress_init_validation [of "''  UsEr@Example.COM  ''" "EmailAddress ''user@example.com''"]
      EmailAddress_init_validation [of "''invalid_email''"]
      EmailAddress_init_validation [of "''user@example.xyz''"]
      s1 s3 c1
    unfolding n1 n2 n3 by simp
qed

theorem EmailAddress_init_accepts_malformed:
  "EmailAddress_init ''@x.com'' = Inr (EmailAddress ''@x.com'')
   \<and> \<not> spec_well_formed (normalize_str ''@x.com'')
   \<and> EmailAddress_init ''a@b@c.com'' = Inr (EmailAddress ''a@b@c.com'')
   \<and> \<not> spec_well_formed (normalize_str ''a@b@c.com'')"
proof -
  have "normalize_str ''@x.com'' = ''@x.com''" and "normalize_str ''a@b@c.com'' = ''a@b@c.com''"
    by code_simp+
  moreover have "EmailAddress_init ''@x.com'' = Inr (EmailAddress ''@x.com'')"
    by code_simp
  moreover have "EmailAddress_init ''a@b@c.com'' = Inr (EmailAddress ''a@b@c.com'')"
    by code_simp
  ultimately show ?thesis
    by (simp add: spec_well_formed_def)
qed

text \<open>
  C7. The masked form of a constructed address is the first two characters of the local
  part, then \<open>***@\<close>, then the domain part. The address
  \<open>ann@home@mail.ru\<close> is constructed from \<open>"  Ann@Home@Mail.RU "\<close>, and
  reading its masked form raises instead.
\<close>

theorem masked_raises_on_constructed_address:
  "EmailAddress_init ''  Ann@Home@Mail.RU '' = Inr (EmailAddress ''ann@home@mail.ru'')
   \<and> masked (EmailAddress ''ann@home@mail.ru'') = Inl UnpackValueError"
  by code_simp

text \<open>
  C8. When construction succeeds, the value of the address is the raw string with the
  surrounding whitespace removed and every character lowercased: the raw string is
  whitespace, then the trimmed string, then whitespace, the trimmed string neither
  starts nor ends with whitespace, and the value is its image under lowercasing. So
  \<open>"  UsEr@Example.COM  "\<close> gives \<open>"user@example.com"\<close>.
\<close>

theorem EmailAddress_value_normalized:
  assumes "EmailAddress_init raw = Inr a"
  shows "address a = map lower_char (strip raw)
    \<and> (\<exists>pre post. raw = pre @ strip raw @ post \<and> list_all isspace pre \<and> list_all isspace post)
    \<and> \<not> isspace (hd (strip raw)) \<and> \<not> isspace (last (strip raw))"
proof -
  have v: "address a = map lower_char (strip raw)"
    using assms by (simp add: EmailAddress_init_iff normalize_str_def lower_def)
  have "CHR ''@'' \<in> set (normalize_str raw)"
    using assms by (simp add: EmailAddress_init_iff)
  then have "strip raw \<noteq> []"
    by (auto simp: normalize_str_def lower_def)
  then have e: "\<not> isspace (hd (strip raw)) \<and> \<not> isspace (last (strip raw))"
    by (rule strip_no_outer_space)
  have "list_all isspace (takeWhile isspace raw)"
    by (auto simp: list_all_iff dest: set_takeWhileD)
  moreover have "list_all isspace (rev (takeWhile isspace (rev (dropWhile isspace raw))))"
    by (auto simp: list_all_iff dest: set_takeWhileD)
  ultimately have "\<exists>pre post. raw = pre @ strip raw @ post
      \<and> list_all isspace pre \<and> list_all isspace post"
    using strip_decomp [of raw] by blast
  with v e show ?thesis
    by simp
qed

theorem EmailAddress_value_normalized_witness:
  "EmailAddress_init ''  UsEr@Example.COM  '' = Inr (EmailAddress ''user@example.com'')
   \<and> address (EmailAddress ''user@example.com'') = map lower_char (strip ''  UsEr@Example.COM  '')
   \<and> map lower_char (strip ''  UsEr@Example.COM  '') = ''user@example.com''
   \<and> strip ''  UsEr@Example.COM  '' = ''UsEr@Example.COM''"
proof -
  have i: "EmailAddress_init ''  UsEr@Example.COM  '' = Inr (EmailAddress ''user@example.com'')"
    by code_simp
  have s: "strip ''  UsEr@Example.COM  '' = ''UsEr@Example.COM''"
    by code_simp
  have l: "map lower_char (strip ''  UsEr@Example.COM  '') = ''user@example.com''"
    by code_simp
  have v: "address (EmailAddress ''user@example.com'')
      = map lower_char (strip ''  UsEr@Example.COM  '')"
    using EmailAddress_value_normalized [OF i] by (rule conjunct1)
  from i v l s show ?thesis
    by blast
qed

text \<open>
  C10. The raw string \<open>a@b@c.com\<close> has more than one separator and ends with an allowed
  suffix; its construction succeeds, and reading the masked form of the constructed
  address raises: the masked view is not defined on every constructible address.
\<close>

theorem masked_not_total:
  "1 < count_list ''a@b@c.com'' (CHR ''@'')
   \<and> endswith ''a@b@c.com'' ''.com''
   \<and> EmailAddress_init ''a@b@c.com'' = Inr (EmailAddress ''a@b@c.com'')
   \<and> masked (EmailAddress ''a@b@c.com'') = Inl UnpackValueError
   \<and> (\<nexists>m. masked (EmailAddress ''a@b@c.com'') = Inr m)"
proof -
  have "masked (EmailAddress ''a@b@c.com'') = Inl UnpackValueError"
    by code_simp
  moreover have "EmailAddress_init ''a@b@c.com'' = Inr (EmailAddress ''a@b@c.com'')"
    by code_simp
  ultimately show ?thesis
    by (simp add: endswith_def)
qed

section \<open>Facts about whitespace splitting\<close>


lemma strip_rstrip: "strip s = rstrip (dropWhile isspace s)"
  by (simp add: strip_def rstrip_def)

lemma rstrip_Nil: "rstrip [] = []"
  by (simp add: rstrip_def)

lemma rstrip_Nil_iff: "rstrip s = [] \<longleftrightarrow> (\<forall>c \<in> set s. isspace c)"
  by (auto simp: rstrip_def)

lemma rstrip_append:
  "rstrip (w @ r) = (if rstrip r = [] then rstrip w else w @ rstrip r)"
  by (auto simp: rstrip_def dropWhile_append)

lemma rstrip_no_space: "\<forall>c \<in> set w. \<not> isspace c \<Longrightarrow> rstrip w = w"
proof -
  assume a: "\<forall>c \<in> set w. \<not> isspace c"
  have "dropWhile isspace (rev w) = rev w"
  proof (cases "rev w")
    case Nil
    then show ?thesis by simp
  next
    case (Cons c cs)
    then have "c \<in> set w"
      by (metis list.set_intros(1) set_rev)
    then show ?thesis
      using a Cons by simp
  qed
  then show ?thesis
    by (simp add: rstrip_def)
qed

lemma rstrip_Cons:
  "rstrip (c # cs) = (if rstrip cs = [] then (if isspace c then [] else [c]) else c # rstrip cs)"
  using rstrip_append [of "[c]" cs] by (simp add: rstrip_def)

lemma dropWhile_rstrip: "dropWhile isspace (rstrip s) = rstrip (dropWhile isspace s)"
proof (induction s)
  case Nil
  then show ?case by (simp add: rstrip_def)
next
  case (Cons c cs)
  show ?case
  proof (cases "isspace c")
    case True
    show ?thesis
    proof (cases "rstrip cs = []")
      case e: True
      then have "\<forall>x \<in> set cs. isspace x"
        by (simp only: rstrip_Nil_iff)
      then have "dropWhile isspace (c # cs) = []"
        using True by simp
      moreover have "rstrip (c # cs) = []"
        using True e by (simp only: rstrip_Cons if_True simp_thms)
      ultimately show ?thesis
        by (simp only: dropWhile.simps rstrip_Nil)
    next
      case False
      then show ?thesis
        using True Cons by (simp add: rstrip_Cons)
    qed
  next
    case False
    then show ?thesis
      by (simp add: rstrip_Cons)
  qed
qed

lemma spec_collapse_no_space:
  "\<forall>c \<in> set w. \<not> isspace c \<Longrightarrow> spec_collapse (w @ r) = w @ spec_collapse r"
  by (induction w) auto

lemma split_ws_all_space: "\<forall>c \<in> set s. isspace c \<Longrightarrow> split_ws s = []"
proof -
  assume "\<forall>c \<in> set s. isspace c"
  then have "dropWhile isspace s = []"
    by simp
  then show ?thesis
    by (subst split_ws.simps) (simp only: list.case)
qed

lemma split_ws_step:
  assumes "dropWhile isspace s = c # cs"
  shows "split_ws s = takeWhile (\<lambda>x. \<not> isspace x) (c # cs)
           # split_ws (dropWhile (\<lambda>x. \<not> isspace x) (c # cs))"
  by (subst split_ws.simps) (simp only: assms list.case)

lemma split_ws_Nil_iff: "split_ws s = [] \<longleftrightarrow> (\<forall>c \<in> set s. isspace c)"
proof
  assume e: "split_ws s = []"
  show "\<forall>c \<in> set s. isspace c"
  proof (cases "dropWhile isspace s")
    case Nil
    then show ?thesis by simp
  next
    case (Cons c cs)
    then show ?thesis
      using e split_ws_step [OF Cons] by simp
  qed
qed (rule split_ws_all_space)

lemma join_split_ws: "join_str '' '' (split_ws s) = spec_collapse (strip s)"
proof (induction s rule: split_ws.induct)
  case (1 s)
  show ?case
  proof (cases "dropWhile isspace s")
    case Nil
    then have "\<forall>c \<in> set s. isspace c"
      by simp
    then have "split_ws s = []"
      by (rule split_ws_all_space)
    moreover have "strip s = []"
      using Nil by (simp only: strip_def rev.simps dropWhile.simps)
    ultimately show ?thesis
      by simp
  next
    case (Cons c cs)
    let ?w = "takeWhile (\<lambda>x. \<not> isspace x) (c # cs)"
    let ?r = "dropWhile (\<lambda>x. \<not> isspace x) (c # cs)"
    have c: "\<not> isspace c"
      using Cons hd_dropWhile [of isspace s] by simp
    have w: "\<forall>x \<in> set ?w. \<not> isspace x"
      by (auto dest: set_takeWhileD)
    have wr: "c # cs = ?w @ ?r"
      by simp
    have ih: "join_str '' '' (split_ws ?r) = spec_collapse (strip ?r)"
      using "1.IH" [OF Cons] .
    have st: "strip s = rstrip (?w @ ?r)"
      using Cons wr by (simp only: strip_rstrip)
    have sp: "split_ws s = ?w # split_ws ?r"
      using Cons by (rule split_ws_step)
    show ?thesis
    proof (cases "\<forall>x \<in> set ?r. isspace x")
      case True
      then have "rstrip ?r = []"
        by (simp only: rstrip_Nil_iff)
      then have "rstrip (?w @ ?r) = rstrip ?w"
        by (simp only: rstrip_append if_True simp_thms)
      then have "strip s = ?w"
        using st rstrip_no_space [OF w] by (simp only:)
      moreover have "split_ws ?r = []"
        using True by (rule split_ws_all_space)
      moreover have "spec_collapse ?w = ?w"
        using spec_collapse_no_space [OF w, of "[]"] by simp
      ultimately show ?thesis
        using sp by simp
    next
      case False
      then have rn: "rstrip ?r \<noteq> []"
        by (simp only: rstrip_Nil_iff not_False_eq_True)
      have ne: "split_ws ?r \<noteq> []"
        using False by (simp only: split_ws_Nil_iff not_False_eq_True)
      then obtain p ps where ps: "split_ws ?r = p # ps"
        by (cases "split_ws ?r") auto
      have "?r \<noteq> []"
      proof
        assume "?r = []"
        then have "set ?r = {}"
          by (simp only: set_empty)
        then have "\<forall>x \<in> set ?r. isspace x"
          by (simp only: ball_empty)
        with False show False ..
      qed
      then obtain x xs where r: "?r = x # xs"
        by (cases ?r) auto
      then have x: "isspace x"
        using hd_dropWhile [of "\<lambda>x. \<not> isspace x" "c # cs"] by simp
      have xsn: "rstrip xs \<noteq> []"
        using rn x unfolding r by (simp add: rstrip_Cons split: if_splits)
      have "strip s = ?w @ rstrip ?r"
        using st rn by (simp only: rstrip_append if_False)
      also have "rstrip ?r = x # rstrip xs"
        unfolding r using xsn by (simp add: rstrip_Cons)
      finally have "spec_collapse (strip s) = ?w @ spec_collapse (x # rstrip xs)"
        using spec_collapse_no_space [OF w] by simp
      also have "spec_collapse (x # rstrip xs) = CHR '' '' # spec_collapse (dropWhile isspace (rstrip xs))"
        using x by simp
      also have "dropWhile isspace (rstrip xs) = strip xs"
        by (simp only: dropWhile_rstrip strip_rstrip)
      also have "strip xs = strip ?r"
        unfolding r using x by (simp add: strip_def)
      finally have "spec_collapse (strip s) = ?w @ CHR '' '' # spec_collapse (strip ?r)" .
      moreover have "join_str '' '' (split_ws s) = ?w @ '' '' @ join_str '' '' (split_ws ?r)"
        unfolding sp ps by simp
      ultimately show ?thesis
        using ih by simp
    qed
  qed
qed

section \<open>Claims about prepare\<close>

lemma prepare_fields:
  "subject (prepare e) = strip (subject e)"
  "body (prepare e) = strip (body e)"
  "sender (prepare e) = sender e"
  "recipients (prepare e) = recipients e"
  "date (prepare e) = date e"
  by (simp_all add: prepare_def add_short_body_def validate_fields_def Let_def)

lemma prepare_short_body:
  "short_body (prepare e) =
     (let clean = join_str '' '' (split_ws (strip (body e)))
      in Some (take 20 clean @ (if 20 < length clean then ''...'' else '''')))"
  by (simp add: prepare_def add_short_body_def validate_fields_def Let_def)

lemma prepare_status:
  "status (prepare e) =
     (if strip (subject e) = [] \<or> strip (body e) = [] \<or> sender e = None \<or> recipients e = []
      then INVALID else READY)"
  by (simp add: prepare_def add_short_body_def validate_fields_def Let_def)

text \<open>
  C4. After \<open>prepare\<close> the status is INVALID if the trimmed subject is empty, or the
  trimmed body is empty, or the sender is absent, or there is no recipient; otherwise it
  is READY. \<open>prepare\<close> is a total function with no exception among its results, and
  its status is one of the two.
\<close>

theorem prepare_status_law:
  "status (prepare e) =
     (if strip (subject e) = [] \<or> strip (body e) = [] \<or> sender e = None \<or> recipients e = []
      then INVALID else READY)
   \<and> (status (prepare e) = INVALID \<or> status (prepare e) = READY)"
  by (simp add: prepare_status)

text \<open>
  C5. A second \<open>prepare\<close> changes nothing: subject, body, short_body and status (and
  every other field) are what the first call left.
\<close>

theorem prepare_idempotent:
  "subject (prepare (prepare e)) = subject (prepare e)
   \<and> body (prepare (prepare e)) = body (prepare e)
   \<and> short_body (prepare (prepare e)) = short_body (prepare e)
   \<and> status (prepare (prepare e)) = status (prepare e)
   \<and> prepare (prepare e) = prepare e"
proof -
  have "prepare (prepare e) = prepare e"
    by (simp add: prepare_def add_short_body_def validate_fields_def Let_def strip_idem)
  then show ?thesis
    by simp
qed

text \<open>
  C6. \<open>prepare\<close> sets short_body to the first 20 characters of the collapsed text,
  followed by \<open>...\<close> exactly when the collapsed text has more than 20 characters;
  the collapsed text is the trimmed body with every whitespace run replaced by one space.
\<close>

theorem prepare_short_body_law:
  "short_body (prepare e) =
     Some (take 20 (spec_collapse (strip (body e)))
           @ (if 20 < length (spec_collapse (strip (body e))) then ''...'' else ''''))"
proof -
  have "join_str '' '' (split_ws (strip (body e))) = spec_collapse (strip (strip (body e)))"
    by (rule join_split_ws)
  then have "join_str '' '' (split_ws (strip (body e))) = spec_collapse (strip (body e))"
    by (simp only: strip_idem)
  then show ?thesis
    by (simp only: prepare_short_body Let_def)
qed

lemma prepare_example:
  "prepare (Email_init '' Hi '' '' Test Body '' (Some (EmailAddress ''a@a.com''))
       (One (EmailAddress ''b@b.com'')) :: nat Email)
   = \<lparr>subject = ''Hi'', body = ''Test Body'', sender = Some (EmailAddress ''a@a.com''),
      recipients = [EmailAddress ''b@b.com''], date = None, short_body = Some ''Test Body'',
      status = READY\<rparr>"
  by code_simp

lemma prepare_long_body_example:
  "short_body (prepare (Email_init ''S'' ''  The  quick brown   fox jumps over '' None (Many []) :: nat Email))
   = Some ''The quick brown fox ...''"
  by code_simp

section \<open>Facts about the services\<close>

text \<open>
  One turn of the loop of \<open>send_email\<close>, for a reference already allocated: the new
  object is the source with the recipient, the clock reading and the resolved status.
\<close>

lemma send_loop_Cons:
  assumes "email < next_ref w"
  shows "send_loop email (recipient # rest) result w =
     send_loop email rest (result @ [next_ref w])
       (w\<lparr>next_ref := Suc (next_ref w), ticks := Suc (ticks w),
          heap := (heap w)(next_ref w := (heap w email)
               \<lparr>recipients := [recipient], date := Some (clock w (ticks w)),
                status := (if status (heap w email) = READY then SENT else FAILED)\<rparr>)\<rparr>)"
proof -
  have "email \<noteq> next_ref w"
    using assms by simp
  then show ?thesis
    by (simp add: deepcopy_def now_def assign_def Let_def)
qed

lemma send_loop_props:
  assumes "email < next_ref w" and "send_loop email rs acc w = (refs, w')"
  shows "refs = acc @ [next_ref w ..< next_ref w + length rs]
    \<and> next_ref w' = next_ref w + length rs
    \<and> ticks w' = ticks w + length rs
    \<and> clock w' = clock w
    \<and> send_log w' = send_log w
    \<and> (\<forall>r < next_ref w. heap w' r = heap w r)
    \<and> (\<forall>i < length rs. heap w' (next_ref w + i) =
          (heap w email)\<lparr>recipients := [rs ! i], date := Some (clock w (ticks w + i)),
             status := (if status (heap w email) = READY then SENT else FAILED)\<rparr>)"
  using assms
proof (induction rs arbitrary: acc w)
  case Nil
  then show ?case by simp
next
  case (Cons x rs)
  let ?e = "(heap w email)\<lparr>recipients := [x], date := Some (clock w (ticks w)),
      status := (if status (heap w email) = READY then SENT else FAILED)\<rparr>"
  let ?w = "w\<lparr>next_ref := Suc (next_ref w), ticks := Suc (ticks w),
      heap := (heap w)(next_ref w := ?e)\<rparr>"
  have ne: "email \<noteq> next_ref w"
    using Cons.prems(1) by simp
  have run: "send_loop email rs (acc @ [next_ref w]) ?w = (refs, w')"
    using Cons.prems send_loop_Cons [of email w x rs acc] by simp
  have lt: "email < next_ref ?w"
    using Cons.prems(1) by simp
  note ih = Cons.IH [OF lt run]
  have old: "heap ?w email = heap w email"
    using ne by simp
  have r: "refs = (acc @ [next_ref w]) @ [Suc (next_ref w) ..< Suc (next_ref w) + length rs]"
    using ih by simp
  have "[next_ref w ..< next_ref w + length (x # rs)]
      = next_ref w # [Suc (next_ref w) ..< Suc (next_ref w) + length rs]"
    by (subst upt_rec) simp
  then have 1: "refs = acc @ [next_ref w ..< next_ref w + length (x # rs)]"
    using r by simp
  have 2: "next_ref w' = next_ref w + length (x # rs)"
    using ih by simp
  have 3: "ticks w' = ticks w + length (x # rs)"
    using ih by simp
  have 4: "clock w' = clock w"
    using ih by simp
  have 5: "send_log w' = send_log w"
    using ih by simp
  have keep: "\<forall>r < Suc (next_ref w). heap w' r = heap ?w r"
    using ih by simp
  have 6: "\<forall>r < next_ref w. heap w' r = heap w r"
  proof (intro allI impI)
    fix r assume "r < next_ref w"
    then show "heap w' r = heap w r"
      using keep by simp
  qed
  have new: "\<forall>i < length rs. heap w' (Suc (next_ref w) + i) =
      (heap w email)\<lparr>recipients := [rs ! i], date := Some (clock w (Suc (ticks w) + i)),
         status := (if status (heap w email) = READY then SENT else FAILED)\<rparr>"
    using ih old by simp
  have 7: "\<forall>i < length (x # rs). heap w' (next_ref w + i) =
      (heap w email)\<lparr>recipients := [(x # rs) ! i], date := Some (clock w (ticks w + i)),
         status := (if status (heap w email) = READY then SENT else FAILED)\<rparr>"
  proof (intro allI impI)
    fix i assume i: "i < length (x # rs)"
    show "heap w' (next_ref w + i) =
      (heap w email)\<lparr>recipients := [(x # rs) ! i], date := Some (clock w (ticks w + i)),
         status := (if status (heap w email) = READY then SENT else FAILED)\<rparr>"
    proof (cases i)
      case 0
      then show ?thesis
        using keep by simp
    next
      case (Suc j)
      then have "j < length rs"
        using i by simp
      then show ?thesis
        using new Suc by simp
    qed
  qed
  from 1 2 3 4 5 6 7 show ?case
    by blast
qed

lemma send_email_props:
  assumes "email < next_ref w" and "EmailService_send_email email w = (result, w')"
  shows "result = [next_ref w ..< next_ref w + length (recipients (heap w email))]"
    and "\<forall>r < next_ref w. heap w' r = heap w r"
    and "\<forall>i < length (recipients (heap w email)). heap w' (next_ref w + i) =
          (heap w email)\<lparr>recipients := [recipients (heap w email) ! i],
             date := Some (clock w (ticks w + i)),
             status := (if status (heap w email) = READY then SENT else FAILED)\<rparr>"
    and "next_ref w' = next_ref w + length (recipients (heap w email))"
    and "ticks w' = ticks w + length (recipients (heap w email))"
    and "clock w' = clock w" and "send_log w' = send_log w"
  using send_loop_props [OF assms(1), of "recipients (heap w email)" "[]" result w'] assms(2)
  by (simp_all add: EmailService_send_email_def)

lemma send_email_nth:
  assumes "email < next_ref w" and "EmailService_send_email email w = (result, w')"
    and "i < length (recipients (heap w email))"
  shows "result ! i = next_ref w + i"
    and "heap w' (result ! i) =
          (heap w email)\<lparr>recipients := [recipients (heap w email) ! i],
             date := Some (clock w (ticks w + i)),
             status := (if status (heap w email) = READY then SENT else FAILED)\<rparr>"
proof -
  show n: "result ! i = next_ref w + i"
    using send_email_props(1) [OF assms(1,2)] assms(3) by simp
  show "heap w' (result ! i) =
          (heap w email)\<lparr>recipients := [recipients (heap w email) ! i],
             date := Some (clock w (ticks w + i)),
             status := (if status (heap w email) = READY then SENT else FAILED)\<rparr>"
    using send_email_props(3) [OF assms(1,2)] assms(3) unfolding n by blast
qed

section \<open>Claims about EmailService\<close>

text \<open>
  C1. For a message with N recipients \<open>send_email\<close> returns N new messages, the i-th
  with the i-th recipient of the source as its only recipient (so none when the source
  has none); they are distinct objects allocated by the call, and the source message
  is left as it was, its status and its timestamp included. Each result is a copy of
  the source: it is the source with only the recipients, the timestamp (the i-th reading
  of the clock taken by the call) and the status replaced, so subject, body, sender and
  short_body are those of the source.
\<close>

theorem send_email_fan_out:
  assumes "email < next_ref w" and "EmailService_send_email email w = (result, w')"
  shows "length result = length (recipients (heap w email))
    \<and> map (\<lambda>r. recipients (heap w' r)) result = map (\<lambda>x. [x]) (recipients (heap w email))
    \<and> (recipients (heap w email) = [] \<longrightarrow> result = [])
    \<and> heap w' email = heap w email
    \<and> status (heap w' email) = status (heap w email)
    \<and> date (heap w' email) = date (heap w email)
    \<and> distinct result \<and> (\<forall>r \<in> set result. next_ref w \<le> r \<and> r \<noteq> email)
    \<and> (\<forall>i < length (recipients (heap w email)).
          heap w' (result ! i) =
            (heap w email)\<lparr>recipients := [recipients (heap w email) ! i],
               date := Some (clock w (ticks w + i)),
               status := (if status (heap w email) = READY then SENT else FAILED)\<rparr>)
    \<and> (\<forall>r \<in> set result.
          subject (heap w' r) = subject (heap w email)
          \<and> body (heap w' r) = body (heap w email)
          \<and> sender (heap w' r) = sender (heap w email)
          \<and> short_body (heap w' r) = short_body (heap w email)
          \<and> date (heap w' r) \<noteq> None)"
proof -
  let ?rs = "recipients (heap w email)"
  have res: "result = [next_ref w ..< next_ref w + length ?rs]"
    using assms by (rule send_email_props(1))
  then have len: "length result = length ?rs"
    by simp
  have cell: "heap w' (result ! i) =
      (heap w email)\<lparr>recipients := [?rs ! i], date := Some (clock w (ticks w + i)),
         status := (if status (heap w email) = READY then SENT else FAILED)\<rparr>"
    if "i < length ?rs" for i
    using send_email_nth(2) [OF assms that] .
  have one: "map (\<lambda>r. recipients (heap w' r)) result = map (\<lambda>x. [x]) ?rs"
  proof (rule nth_equalityI)
    show "length (map (\<lambda>r. recipients (heap w' r)) result) = length (map (\<lambda>x. [x]) ?rs)"
      using len by simp
  next
    fix i assume "i < length (map (\<lambda>r. recipients (heap w' r)) result)"
    then have i: "i < length ?rs"
      using len by simp
    then show "map (\<lambda>r. recipients (heap w' r)) result ! i = map (\<lambda>x. [x]) ?rs ! i"
      using cell [OF i] len by simp
  qed
  have same: "heap w' email = heap w email"
    using send_email_props(2) [OF assms] assms(1) by simp
  have fresh: "distinct result \<and> (\<forall>r \<in> set result. next_ref w \<le> r \<and> r \<noteq> email)"
    using res assms(1) by auto
  have none: "recipients (heap w email) = [] \<longrightarrow> result = []"
    using len by auto
  have cells: "\<forall>i < length ?rs. heap w' (result ! i) =
      (heap w email)\<lparr>recipients := [?rs ! i], date := Some (clock w (ticks w + i)),
         status := (if status (heap w email) = READY then SENT else FAILED)\<rparr>"
    using cell by blast
  have copies: "\<forall>r \<in> set result.
      subject (heap w' r) = subject (heap w email)
      \<and> body (heap w' r) = body (heap w email)
      \<and> sender (heap w' r) = sender (heap w email)
      \<and> short_body (heap w' r) = short_body (heap w email)
      \<and> date (heap w' r) \<noteq> None"
  proof
    fix r assume "r \<in> set result"
    then obtain i where i: "i < length ?rs" and r: "r = result ! i"
      using len by (auto simp: in_set_conv_nth)
    show "subject (heap w' r) = subject (heap w email)
      \<and> body (heap w' r) = body (heap w email)
      \<and> sender (heap w' r) = sender (heap w email)
      \<and> short_body (heap w' r) = short_body (heap w email)
      \<and> date (heap w' r) \<noteq> None"
      unfolding r cell [OF i] by simp
  qed
  have st: "status (heap w' email) = status (heap w email)"
    and dt: "date (heap w' email) = date (heap w email)"
    using same by simp_all
  from len one none same st dt fresh cells copies show ?thesis
    by blast
qed

theorem send_email_fan_out_witness:
  "(0::nat) < next_ref (world_with two_recipients id)
   \<and> fst (EmailService_send_email 0 (world_with two_recipients id)) = [1, 2]
   \<and> map (\<lambda>r. recipients (heap (snd (EmailService_send_email 0 (world_with two_recipients id))) r)) [1, 2]
       = [[EmailAddress ''a@a.com''], [EmailAddress ''b@b.com'']]
   \<and> status (heap (snd (EmailService_send_email 0 (world_with two_recipients id))) 0) = READY
   \<and> date (heap (snd (EmailService_send_email 0 (world_with two_recipients id))) 0) = None
   \<and> heap (snd (EmailService_send_email 0 (world_with two_recipients id))) 1
       = \<lparr>subject = ''Subj'', body = ''Body'', sender = Some (EmailAddress ''me@me.com''),
          recipients = [EmailAddress ''a@a.com''], date = Some 0, short_body = Some ''Body'',
          status = SENT\<rparr>
   \<and> heap (snd (EmailService_send_email 0 (world_with two_recipients id))) 2
       = \<lparr>subject = ''Subj'', body = ''Body'', sender = Some (EmailAddress ''me@me.com''),
          recipients = [EmailAddress ''b@b.com''], date = Some 1, short_body = Some ''Body'',
          status = SENT\<rparr>"
proof -
  let ?w = "world_with two_recipients id"
  let ?w' = "snd (EmailService_send_email 0 ?w)"
  have a: "0 < next_ref ?w"
    by (simp add: world_with_def)
  have b: "EmailService_send_email 0 ?w = (fst (EmailService_send_email 0 ?w), ?w')"
    by simp
  have h: "heap ?w 0 = two_recipients"
    by (simp add: world_with_def)
  have v: "two_recipients =
      \<lparr>subject = ''Subj'', body = ''Body'', sender = Some (EmailAddress ''me@me.com''),
       recipients = [EmailAddress ''a@a.com'', EmailAddress ''b@b.com''], date = None,
       short_body = Some ''Body'', status = READY\<rparr>"
    unfolding two_recipients_def by code_simp
  have r: "recipients two_recipients = [EmailAddress ''a@a.com'', EmailAddress ''b@b.com'']"
    and s: "status two_recipients = READY" and d: "date two_recipients = None"
    by (simp_all add: v)
  have f: "fst (EmailService_send_email 0 ?w) = [1, 2]"
    using send_email_props(1) [OF a b] by (simp add: h r world_with_def upt_rec)
  have ck: "clock ?w = id" and tk: "ticks ?w = 0"
    by (simp_all add: world_with_def)
  note t = send_email_fan_out [OF a b]
  have cells: "\<forall>i < length (recipients (heap ?w 0)).
      heap ?w' (fst (EmailService_send_email 0 ?w) ! i) =
        (heap ?w 0)\<lparr>recipients := [recipients (heap ?w 0) ! i],
           date := Some (clock ?w (ticks ?w + i)),
           status := (if status (heap ?w 0) = READY then SENT else FAILED)\<rparr>"
    using t by blast
  have "heap ?w' 1 = two_recipients\<lparr>recipients := [EmailAddress ''a@a.com''],
      date := Some 0, status := SENT\<rparr>"
    using cells [rule_format, of 0] by (simp add: f h r s ck tk)
  also have "\<dots> =
      \<lparr>subject = ''Subj'', body = ''Body'', sender = Some (EmailAddress ''me@me.com''),
       recipients = [EmailAddress ''a@a.com''], date = Some 0, short_body = Some ''Body'',
       status = SENT\<rparr>"
    by (simp add: v)
  finally have c1: "heap ?w' 1 =
      \<lparr>subject = ''Subj'', body = ''Body'', sender = Some (EmailAddress ''me@me.com''),
       recipients = [EmailAddress ''a@a.com''], date = Some 0, short_body = Some ''Body'',
       status = SENT\<rparr>" .
  have "heap ?w' 2 = two_recipients\<lparr>recipients := [EmailAddress ''b@b.com''],
      date := Some 1, status := SENT\<rparr>"
    using cells [rule_format, of 1] by (simp add: f h r s ck tk)
  also have "\<dots> =
      \<lparr>subject = ''Subj'', body = ''Body'', sender = Some (EmailAddress ''me@me.com''),
       recipients = [EmailAddress ''b@b.com''], date = Some 1, short_body = Some ''Body'',
       status = SENT\<rparr>"
    by (simp add: v)
  finally have c2: "heap ?w' 2 =
      \<lparr>subject = ''Subj'', body = ''Body'', sender = Some (EmailAddress ''me@me.com''),
       recipients = [EmailAddress ''b@b.com''], date = Some 1, short_body = Some ''Body'',
       status = SENT\<rparr>" .
  have rest: "map (\<lambda>r. recipients (heap ?w' r)) [1, 2]
       = [[EmailAddress ''a@a.com''], [EmailAddress ''b@b.com'']]
     \<and> status (heap ?w' 0) = READY \<and> date (heap ?w' 0) = None"
    using t f by (simp add: h r s d)
  from a f rest c1 c2 show ?thesis
    by blast
qed

text \<open>
  C2. When the status of the source message is READY at the call, every message returned
  has status SENT; for any other source status every message returned has status FAILED.
  \<open>send_email\<close> is a total function with no exception among its results.
\<close>

theorem send_email_status_resolution:
  assumes "email < next_ref w" and "EmailService_send_email email w = (result, w')"
  shows "(status (heap w email) = READY \<longrightarrow> (\<forall>r \<in> set result. status (heap w' r) = SENT))
    \<and> (status (heap w email) \<noteq> READY \<longrightarrow> (\<forall>r \<in> set result. status (heap w' r) = FAILED))"
proof -
  let ?rs = "recipients (heap w email)"
  have st: "status (heap w' r) = (if status (heap w email) = READY then SENT else FAILED)"
    if "r \<in> set result" for r
  proof -
    have len: "length result = length ?rs"
      using send_email_props(1) [OF assms] by simp
    from that obtain i where i: "i < length result" and r: "r = result ! i"
      by (auto simp: in_set_conv_nth)
    then have "i < length ?rs"
      using len by simp
    then show ?thesis
      using send_email_nth(2) [OF assms] r by simp
  qed
  then show ?thesis
    by simp
qed

theorem send_email_status_resolution_witness:
  "(0::nat) < next_ref (world_with two_recipients id)
   \<and> status (heap (world_with two_recipients id) 0) = READY
   \<and> fst (EmailService_send_email 0 (world_with two_recipients id)) = [1, 2]
   \<and> status (heap (snd (EmailService_send_email 0 (world_with two_recipients id))) 1) = SENT
   \<and> status (heap (snd (EmailService_send_email 0 (world_with two_recipients id))) 2) = SENT
   \<and> status (heap (world_with empty_subject id) 0) = INVALID
   \<and> fst (EmailService_send_email 0 (world_with empty_subject id)) = [1]
   \<and> status (heap (snd (EmailService_send_email 0 (world_with empty_subject id))) 1) = FAILED"
proof -
  let ?w = "world_with two_recipients id" and ?v = "world_with empty_subject id"
  have a: "0 < next_ref ?w" and a': "0 < next_ref ?v"
    by (simp_all add: world_with_def)
  have b: "EmailService_send_email 0 ?w
      = (fst (EmailService_send_email 0 ?w), snd (EmailService_send_email 0 ?w))"
    by simp
  have b': "EmailService_send_email 0 ?v
      = (fst (EmailService_send_email 0 ?v), snd (EmailService_send_email 0 ?v))"
    by simp
  have h: "heap ?w 0 = two_recipients" and h': "heap ?v 0 = empty_subject"
    by (simp_all add: world_with_def)
  have r: "recipients two_recipients = [EmailAddress ''a@a.com'', EmailAddress ''b@b.com'']"
    by (simp add: two_recipients_def prepare_fields Email_init_def)
  have r': "recipients empty_subject = [EmailAddress ''you@you.com'']"
    by (simp add: empty_subject_def prepare_fields Email_init_def)
  have s: "status two_recipients = READY"
    unfolding two_recipients_def by code_simp
  have s': "status empty_subject = INVALID"
    unfolding empty_subject_def by code_simp
  have f: "fst (EmailService_send_email 0 ?w) = [1, 2]"
    using send_email_props(1) [OF a b] by (simp add: h r world_with_def upt_rec)
  have f': "fst (EmailService_send_email 0 ?v) = [1]"
    using send_email_props(1) [OF a' b'] by (simp add: h' r' world_with_def upt_rec)
  show ?thesis
    using send_email_status_resolution [OF a b] send_email_status_resolution [OF a' b']
      a f f' by (simp add: h h' s s')
qed

lemma log_loop_ok:
  assumes "sender (heap w email) = Some s" and "masked s = Inr from_m"
    and "\<forall>m \<in> set msgs. \<exists>r rs. recipients (heap w m) = r # rs \<and> masked r = Inr (to_m m)"
  shows "log_loop str_dt email msgs w =
     (Inr (), w\<lparr>ticks := ticks w + length msgs,
                send_log := send_log w @ concat (map (\<lambda>(t, m).
                    log_line (str_dt (clock w t)) from_m (to_m m) (status (heap w m)))
                  (enumerate (ticks w) msgs))\<rparr>)"
  using assms
proof (induction msgs arbitrary: w)
  case Nil
  then show ?case by simp
next
  case (Cons m msgs)
  from Cons.prems(3) obtain r rs where r: "recipients (heap w m) = r # rs"
    and mr: "masked r = Inr (to_m m)"
    by auto
  let ?w = "w\<lparr>ticks := Suc (ticks w),
      send_log := send_log w
        @ log_line (str_dt (clock w (ticks w))) from_m (to_m m) (status (heap w m))\<rparr>"
  have step: "log_loop str_dt email (m # msgs) w = log_loop str_dt email msgs ?w"
    using Cons.prems(1,2) r mr by (simp add: now_def)
  have "log_loop str_dt email msgs ?w =
     (Inr (), ?w\<lparr>ticks := ticks ?w + length msgs,
                send_log := send_log ?w @ concat (map (\<lambda>(t, m).
                    log_line (str_dt (clock ?w t)) from_m (to_m m) (status (heap ?w m)))
                  (enumerate (ticks ?w) msgs))\<rparr>)"
  proof (rule Cons.IH)
    show "sender (heap ?w email) = Some s"
      using Cons.prems(1) by simp
    show "masked s = Inr from_m"
      by (rule Cons.prems(2))
    show "\<forall>m \<in> set msgs. \<exists>r rs. recipients (heap ?w m) = r # rs \<and> masked r = Inr (to_m m)"
      using Cons.prems(3) by simp
  qed
  then show ?case
    unfolding step by simp
qed

lemma logging_send_email_ok:
  assumes "email < next_ref w" and "EmailService_send_email email w = (result, w1)"
    and "sender (heap w email) = Some s" and "masked s = Inr from_m"
    and "\<forall>r \<in> set (recipients (heap w email)). masked r = Inr (to_m r)"
  shows "\<exists>w2. LoggingEmailService_send_email str_dt email w = (Inr result, w2)
    \<and> heap w2 = heap w1
    \<and> send_log w2 = send_log w @ concat (map (\<lambda>i.
          log_line (str_dt (clock w (ticks w + length (recipients (heap w email)) + i))) from_m
            (to_m (recipients (heap w email) ! i))
            (if status (heap w email) = READY then SENT else FAILED))
        [0 ..< length (recipients (heap w email))])"
proof -
  let ?rs = "recipients (heap w email)"
  let ?n = "length ?rs"
  let ?st = "if status (heap w email) = READY then SENT else FAILED"
  let ?to = "\<lambda>m. to_m (?rs ! (m - next_ref w))"
  note p = send_email_props [OF assms(1,2)]
  have len: "length result = ?n"
    using p(1) by simp
  have cell: "heap w1 (result ! i) = (heap w email)\<lparr>recipients := [?rs ! i],
      date := Some (clock w (ticks w + i)), status := ?st\<rparr>"
    and idx: "result ! i = next_ref w + i" if "i < ?n" for i
    using send_email_nth [OF assms(1,2) that] by simp_all
  have s1: "sender (heap w1 email) = Some s"
    using p(2) assms(1,3) by simp
  have rcp: "\<forall>m \<in> set result. \<exists>r rs. recipients (heap w1 m) = r # rs \<and> masked r = Inr (?to m)"
  proof
    fix m assume "m \<in> set result"
    then obtain i where i: "i < ?n" and m: "m = result ! i"
      using len by (auto simp: in_set_conv_nth)
    have "masked (?rs ! i) = Inr (to_m (?rs ! i))"
      using assms(5) i by simp
    then show "\<exists>r rs. recipients (heap w1 m) = r # rs \<and> masked r = Inr (?to m)"
      using cell [OF i] idx [OF i] m by simp
  qed
  let ?lines = "map (\<lambda>(t, m). log_line (str_dt (clock w1 t)) from_m (?to m) (status (heap w1 m)))
      (enumerate (ticks w1) result)"
  have ll: "log_loop str_dt email result w1 =
      (Inr (), w1\<lparr>ticks := ticks w1 + length result, send_log := send_log w1 @ concat ?lines\<rparr>)"
    using s1 assms(4) rcp by (rule log_loop_ok)
  have "?lines = map (\<lambda>i. log_line (str_dt (clock w (ticks w + ?n + i))) from_m
      (to_m (?rs ! i)) ?st) [0 ..< ?n]"
  proof (rule nth_equalityI)
    show "length ?lines = length (map (\<lambda>i. log_line (str_dt (clock w (ticks w + ?n + i))) from_m
      (to_m (?rs ! i)) ?st) [0 ..< ?n])"
      using len by simp
  next
    fix i assume "i < length ?lines"
    then have i: "i < ?n"
      using len by simp
    then have "enumerate (ticks w1) result ! i = (ticks w + ?n + i, result ! i)"
      using len p(5) by (simp add: nth_enumerate_eq)
    then show "?lines ! i = map (\<lambda>i. log_line (str_dt (clock w (ticks w + ?n + i))) from_m
      (to_m (?rs ! i)) ?st) [0 ..< ?n] ! i"
      using i len cell [OF i] idx [OF i] p(6) by simp
  qed
  then have "log_loop str_dt email result w1 =
      (Inr (), w1\<lparr>ticks := ticks w1 + length result,
         send_log := send_log w @ concat (map (\<lambda>i.
           log_line (str_dt (clock w (ticks w + ?n + i))) from_m (to_m (?rs ! i)) ?st)
           [0 ..< ?n])\<rparr>)"
    using ll p(7) by simp
  then show ?thesis
    using assms(2) by (simp add: LoggingEmailService_send_email_def)
qed

lemma logging_example:
  "fst (LoggingEmailService_send_email (\<lambda>t. t) 0
          (world_with hello (\<lambda>_. ''2025-01-01 12:00:00''))) = Inr [1]
   \<and> send_log (snd (LoggingEmailService_send_email (\<lambda>t. t) 0
          (world_with hello (\<lambda>_. ''2025-01-01 12:00:00''))))
       = ''2025-01-01 12:00:00: FROM me***@me.com TO yo***@you.com STATUS=sent'' @ [CHR 0x0A]"
proof -
  have s: "sender hello = Some (EmailAddress ''me@me.com'')"
    by (simp add: hello_def prepare_fields Email_init_def)
  have r: "recipients hello = [EmailAddress ''you@you.com'']"
    by (simp add: hello_def prepare_fields Email_init_def)
  have st: "status hello = READY"
    unfolding hello_def by code_simp
  have m: "masked (EmailAddress ''me@me.com'') = Inr ''me***@me.com''"
    "masked (EmailAddress ''you@you.com'') = Inr ''yo***@you.com''"
    by code_simp+
  show ?thesis
    by (simp add: LoggingEmailService_send_email_def EmailService_send_email_def world_with_def
        deepcopy_def now_def assign_def Let_def log_line_def s r st m)
qed

section \<open>Claims about LoggingEmailService\<close>

text \<open>
  C9. The logging service returns the results of the base service and appends one line for
  each to the log: the timestamp, FROM and the masked sender of the message passed in, TO
  and the masked recipient of the result, STATUS= and the lowercase status name. For the
  prepared message from \<open>a@b@c.com\<close> to \<open>you@you.com\<close> the call raises while its
  first line is formatted: nothing is returned and nothing is written.
\<close>

theorem logging_send_email_raises:
  "EmailAddress_init ''a@b@c.com'' = Inr (EmailAddress ''a@b@c.com'')
   \<and> sender two_separators = Some (EmailAddress ''a@b@c.com'')
   \<and> status two_separators = READY
   \<and> fst (LoggingEmailService_send_email (\<lambda>t. t) 0
           (world_with two_separators (\<lambda>_. ''2025-01-01 12:00:00''))) = Inl UnpackValueError
   \<and> send_log (snd (LoggingEmailService_send_email (\<lambda>t. t) 0
           (world_with two_separators (\<lambda>_. ''2025-01-01 12:00:00'')))) = []"
proof -
  have i: "EmailAddress_init ''a@b@c.com'' = Inr (EmailAddress ''a@b@c.com'')"
    by code_simp
  have s: "sender two_separators = Some (EmailAddress ''a@b@c.com'')"
    by (simp add: two_separators_def prepare_fields Email_init_def)
  have r: "recipients two_separators = [EmailAddress ''you@you.com'']"
    by (simp add: two_separators_def prepare_fields Email_init_def)
  have st: "status two_separators = READY"
    unfolding two_separators_def by code_simp
  have m: "masked (EmailAddress ''a@b@c.com'') = Inl UnpackValueError"
    by code_simp
  show ?thesis
    using i s st
    by (simp add: LoggingEmailService_send_email_def EmailService_send_email_def world_with_def
        deepcopy_def now_def assign_def Let_def r m)
qed

end
